theory Spec2Isabelle
  imports Main "HOL-Library.AList" "HOL-Library.Multiset"
begin

section \<open>Python strings and dictionaries\<close>

text \<open>
  Strings are \<^typ>\<open>string\<close>. A Python \<open>dict\<close> is an association list with pairwise
  distinct keys in insertion order: \<open>d[k] = v\<close> is \<^const>\<open>AList.update\<close> (an existing key
  keeps its position, a new key goes last), \<open>del d[k]\<close> is \<^const>\<open>AList.delete\<close>,
  \<open>d.get(k)\<close> is \<^const>\<open>map_of\<close> and \<open>d.items()\<close> is the list itself.
  The characters are those of the ASCII range: \<open>str.strip\<close> and \<open>str.upper\<close> are
  modelled on them and leave every other character alone.
\<close>

definition is_space :: "char \<Rightarrow> bool" where
  "is_space c = (let n = (of_char c :: nat) in (9 \<le> n \<and> n \<le> 13) \<or> (28 \<le> n \<and> n \<le> 32))"

definition lstrip :: "string \<Rightarrow> string" where
  "lstrip s = dropWhile is_space s"

definition rstrip :: "string \<Rightarrow> string" where
  "rstrip s = rev (dropWhile is_space (rev s))"

definition strip :: "string \<Rightarrow> string" where
  "strip s = rstrip (lstrip s)"

definition startswith :: "string \<Rightarrow> string \<Rightarrow> bool" where
  "startswith s p = (take (length p) s = p)"

definition upper_char :: "char \<Rightarrow> char" where
  "upper_char c = (let n = (of_char c :: nat) in if 97 \<le> n \<and> n \<le> 122 then char_of (n - 32) else c)"

definition upper :: "string \<Rightarrow> string" where
  "upper s = map upper_char s"

definition replace_char :: "char \<Rightarrow> char \<Rightarrow> string \<Rightarrow> string" where
  "replace_char a b s = map (\<lambda>c. if c = a then b else c) s"

text \<open>\<open>line.split("=", 1)\<close> on a line that contains \<open>=\<close>: the text before the first
  \<open>=\<close> and the text after it.\<close>

definition split_eq :: "string \<Rightarrow> string \<times> string" where
  "split_eq line =
     (takeWhile (\<lambda>c. c \<noteq> CHR ''='') line, tl (dropWhile (\<lambda>c. c \<noteq> CHR ''='') line))"

section \<open>The env-file parsers\<close>

text \<open>
  \<open>parse_env_file\<close> of \<open>sync_to_infisical.py\<close> (and of \<open>compare_configs.py\<close>, which has
  the same loop) reads the file line by line. \<open>line_entry\<close> is the body of the loop up to
  the assignment: the stripped key and value of a \<open>KEY=VALUE\<close> line, \<open>None\<close> for a line
  the loop skips (blank, comment, no \<open>=\<close>, empty key). The file is given as its list of
  lines.
\<close>

definition line_entry :: "string \<Rightarrow> (string \<times> string) option" where
  "line_entry raw =
     (let line = strip raw in
      if line = [] \<or> startswith line ''#'' then None
      else if CHR ''='' \<in> set line then
        (let (key, val) = split_eq line;
             key = strip key;
             val = strip val
         in if key \<noteq> [] then Some (key, val) else None)
      else None)"

definition parse_line :: "(string \<times> string) list \<Rightarrow> string \<Rightarrow> (string \<times> string) list" where
  "parse_line secrets raw =
     (case line_entry raw of
        None \<Rightarrow> secrets
      | Some (key, val) \<Rightarrow> AList.update key val secrets)"

definition parse_env_file :: "string list \<Rightarrow> (string \<times> string) list" where
  "parse_env_file lines = foldl parse_line [] lines"

text \<open>\<open>parse_env_file\<close> of \<open>compare_with_archive_v2.py\<close>: the same loop without the
  test for an empty key.\<close>

definition line_entry_v2 :: "string \<Rightarrow> (string \<times> string) option" where
  "line_entry_v2 raw =
     (let line = strip raw in
      if line = [] \<or> startswith line ''#'' then None
      else if CHR ''='' \<in> set line then
        (let (key, val) = split_eq line in Some (strip key, strip val))
      else None)"

definition parse_line_v2 :: "(string \<times> string) list \<Rightarrow> string \<Rightarrow> (string \<times> string) list" where
  "parse_line_v2 result raw =
     (case line_entry_v2 raw of
        None \<Rightarrow> result
      | Some (key, val) \<Rightarrow> AList.update key val result)"

definition parse_env_file_v2 :: "string list \<Rightarrow> (string \<times> string) list" where
  "parse_env_file_v2 lines = foldl parse_line_v2 [] lines"

section \<open>Key normalization\<close>

text \<open>\<open>normalize_key\<close> of \<open>compare_configs.py\<close>: the candidate prefixes in order, the
  one built from the service name first.\<close>

definition service_prefix :: "string \<Rightarrow> string" where
  "service_prefix service_name = replace_char CHR ''-'' CHR ''_'' (upper service_name) @ ''_''"

definition prefixes :: "string \<Rightarrow> string list" where
  "prefixes service_name =
     [service_prefix service_name,
      ''COMFY_MCP_'', ''FETCH_MCP_'', ''PERPLEXITY_MCP_'',
      ''SHOPIFY_MCP_'', ''CHART_MCP_'', ''COMMERCE_MCP_'',
      ''GOOGLE_ADS_MCP_'']"

fun strip_first_prefix :: "string list \<Rightarrow> string \<Rightarrow> string" where
  "strip_first_prefix [] key = key"
| "strip_first_prefix (p # ps) key =
     (if startswith key p then drop (length p) key else strip_first_prefix ps key)"

definition normalize_key :: "string \<Rightarrow> string \<Rightarrow> string" where
  "normalize_key key service_name = strip_first_prefix (prefixes service_name) key"

section \<open>The comparators\<close>

text \<open>
  \<open>compare_configs\<close> of \<open>compare_configs.py\<close> compares an archived configuration
  (whose keys it normalizes) with the configuration fetched from the store; the one of
  \<open>compare_with_archive_v2.py\<close> (\<open>compare_configs_v2\<close> here) compares two parsed files
  key by key. The allow-lists are the module constants.
\<close>

definition EXPECTED_CHANGES :: "string list" where
  "EXPECTED_CHANGES =
     [''PUBLIC_URL'', ''PUBLIC_BASE_URL'', ''USER_AUTH_URL'', ''OAUTH_ISSUER'',
      ''COMMERCE_API_URL'', ''API_BASE_URL'', ''NEXT_PUBLIC_BASE_URL'',
      ''NEXT_PUBLIC_USER_AUTH_URL'', ''NEXT_PUBLIC_COMMERCE_BACKEND_URL'',
      ''NEXT_PUBLIC_SHOP_DOMAIN'', ''CORS_ORIGINS'',
      ''CONTAINER_NAME'', ''APP_NAME'',
      ''COMFY_MCP_PUBLIC_URL'', ''FETCH_MCP_PUBLIC_URL'', ''PERPLEXITY_MCP_PUBLIC_URL'',
      ''SHOPIFY_MCP_PUBLIC_URL'', ''CHART_MCP_PUBLIC_URL'', ''COMMERCE_MCP_PUBLIC_URL'',
      ''GOOGLE_ADS_MCP_PUBLIC_URL'',
      ''STORE_DOMAIN'', ''SHOP_DOMAIN'',
      ''DATABASE_URL'', ''REDIS_URL'', ''DB_USER'', ''DB_PASSWORD'', ''DB_NAME'',
      ''OAUTH_CLIENT_ID'', ''OAUTH_CLIENT_SECRET'', ''SECRET_KEY'', ''SESSION_SECRET'',
      ''APP_SECRET'', ''EMAIL_PASSWORD_SECRET'', ''NODE_ENV'', ''LOG_LEVEL'',
      ''BACKEND_URL'',
      ''EMAIL_HOST'', ''EMAIL_PORT'', ''EMAIL_USER'', ''EMAIL_PASS'', ''EMAIL_FROM'',
      ''EMAIL_SECURE'',
      ''ANTHROPIC_API_KEY'', ''OPENAI_API_KEY'', ''PERPLEXITY_API_KEY'']"

record comparison =
  matched :: "(string \<times> string) list"
  changed :: "(string \<times> string \<times> string) list"
  expected_change :: "(string \<times> string \<times> string) list"
  only_old :: "(string \<times> string) list"
  only_new :: "(string \<times> string) list"

definition empty_comparison :: comparison where
  "empty_comparison =
     \<lparr>matched = [], changed = [], expected_change = [], only_old = [], only_new = []\<rparr>"

definition normalize_old :: "(string \<times> string) list \<Rightarrow> string \<Rightarrow> (string \<times> string \<times> string) list" where
  "normalize_old old_config service_name =
     foldl (\<lambda>old_normalized (k, v).
              AList.update (normalize_key k service_name) (k, v) old_normalized) [] old_config"

fun compare_step ::
  "comparison \<times> (string \<times> string \<times> string) list \<Rightarrow> string \<times> string
     \<Rightarrow> comparison \<times> (string \<times> string \<times> string) list" where
  "compare_step (result, old_normalized) (new_key, new_val) =
     (case map_of old_normalized new_key of
        Some (old_key, old_val) \<Rightarrow>
          ((if old_val = new_val then
              result\<lparr>matched := matched result @ [(new_key, new_val)]\<rparr>
            else if new_key \<in> set EXPECTED_CHANGES \<or> old_key \<in> set EXPECTED_CHANGES then
              result\<lparr>expected_change := expected_change result @ [(new_key, old_val, new_val)]\<rparr>
            else
              result\<lparr>changed := changed result @ [(new_key, old_val, new_val)]\<rparr>),
           AList.delete new_key old_normalized)
      | None \<Rightarrow>
          (result\<lparr>only_new := only_new result @ [(new_key, new_val)]\<rparr>, old_normalized))"

definition compare_configs ::
  "(string \<times> string) list \<Rightarrow> (string \<times> string) list \<Rightarrow> string \<Rightarrow> string \<Rightarrow> comparison" where
  "compare_configs old_config new_config service_name env =
     (let (result, old_normalized) =
            foldl compare_step (empty_comparison, normalize_old old_config service_name) new_config
      in result\<lparr>only_old := only_old result @ map snd old_normalized\<rparr>)"


definition EXPECTED_DIFF_KEYS :: "string list" where
  "EXPECTED_DIFF_KEYS =
     [''DATABASE_URL'', ''DB_HOST'', ''DB_PORT'', ''DB_NAME'', ''DB_USER'', ''DB_PASSWORD'',
      ''DATABASE_HOST'', ''DATABASE_PORT'',
      ''REDIS_URL'', ''REDIS_HOST'', ''REDIS_PORT'', ''REDIS_DB'',
      ''ANTHROPIC_API_KEY'', ''OPENAI_API_KEY'', ''PERPLEXITY_API_KEY'',
      ''RESEND_API_KEY'', ''GOOGLE_ADS_CLIENT_ID'', ''GOOGLE_ADS_CLIENT_SECRET'',
      ''GOOGLE_ADS_DEVELOPER_TOKEN'', ''GOOGLE_ADS_REFRESH_TOKEN'',
      ''GOOGLE_ADS_MANAGER_ACCOUNT_ID'', ''GOOGLE_ADS_CUSTOMER_ID'', ''GOOGLE_ADS_LOGIN_CUSTOMER_ID'',
      ''SHOPIFY_ACCESS_TOKEN'', ''SHOPIFY_SHOP_DOMAIN'',
      ''EASYSHIP_API_KEY'', ''EASYSHIP_API_URL'', ''EASYSHIP_WEBHOOK_SECRET'',
      ''EXCHANGERATE_API_KEY'', ''FREECURRENCY_API_KEY'',
      ''STRIPE_SECRET_KEY'', ''STRIPE_CONNECT_CLIENT_ID'', ''STRIPE_CONNECT_WEBHOOK_SECRET'',
      ''STRIPE_WEBHOOK_SECRET'', ''STRIPE_PRICE_ID_ENTERPRISE_MONTHLY'',
      ''STRIPE_PRICE_ID_ENTERPRISE_YEARLY'', ''STRIPE_PRICE_ID_PRO_MONTHLY'',
      ''STRIPE_PRICE_ID_PRO_YEARLY'',
      ''MINIO_ACCESS_KEY'', ''MINIO_SECRET_KEY'', ''MINIO_ENDPOINT'',
      ''MINIO_BUCKET'', ''MINIO_TEMP_BUCKET'', ''MINIO_PUBLIC_DOMAIN'',
      ''OAUTH_CLIENT_ID'', ''OAUTH_CLIENT_SECRET'',
      ''PUBLIC_URL'', ''PUBLIC_BASE_URL'', ''USER_AUTH_URL'', ''OAUTH_ISSUER'',
      ''COMMERCE_API_URL'', ''API_BASE_URL'', ''BACKEND_URL'', ''STORE_DOMAIN'',
      ''MCP_HOST_URL'', ''DEVICE_VERIFICATION_URI'',
      ''NEXT_PUBLIC_BASE_URL'', ''NEXT_PUBLIC_USER_AUTH_URL'',
      ''NEXT_PUBLIC_COMMERCE_BACKEND_URL'', ''NEXT_PUBLIC_SHOP_DOMAIN'',
      ''NEXT_PUBLIC_AUTH_URL'', ''NEXT_PUBLIC_API_BASE_URL'',
      ''RESEND_FROM_EMAIL'', ''RESEND_FROM_NAME'', ''RESEND_REPLY_TO'',
      ''EMAIL_HOST'', ''EMAIL_PORT'', ''EMAIL_USER'', ''EMAIL_PASS'', ''EMAIL_FROM'',
      ''CORS_ORIGINS'']"

record comparison_v2 =
  matched_v2 :: "string list"
  expected_diff :: "(string \<times> string \<times> string) list"
  unexpected_diff :: "(string \<times> string \<times> string) list"
  only_expanded :: "(string \<times> string) list"
  only_archive :: "(string \<times> string option) list"

definition empty_comparison_v2 :: comparison_v2 where
  "empty_comparison_v2 =
     \<lparr>matched_v2 = [], expected_diff = [], unexpected_diff = [], only_expanded = [],
      only_archive = []\<rparr>"

definition compare_step_v2 ::
  "(string \<times> string) list \<Rightarrow> (string \<times> string) list \<Rightarrow> comparison_v2 \<Rightarrow> string \<Rightarrow> comparison_v2" where
  "compare_step_v2 expanded archive result key =
     (case map_of expanded key of
        None \<Rightarrow> result\<lparr>only_archive := only_archive result @ [(key, map_of archive key)]\<rparr>
      | Some exp_val \<Rightarrow>
          (case map_of archive key of
             None \<Rightarrow> result\<lparr>only_expanded := only_expanded result @ [(key, exp_val)]\<rparr>
           | Some arc_val \<Rightarrow>
               if exp_val = arc_val then result\<lparr>matched_v2 := matched_v2 result @ [key]\<rparr>
               else if key \<in> set EXPECTED_DIFF_KEYS then
                 result\<lparr>expected_diff := expected_diff result @ [(key, arc_val, exp_val)]\<rparr>
               else
                 result\<lparr>unexpected_diff := unexpected_diff result @ [(key, arc_val, exp_val)]\<rparr>))"

definition compare_configs_v2 ::
  "string list \<Rightarrow> (string \<times> string) list \<Rightarrow> (string \<times> string) list \<Rightarrow> comparison_v2" where
  "compare_configs_v2 all_keys expanded archive =
     foldl (compare_step_v2 expanded archive) empty_comparison_v2 all_keys"

definition matched_keys :: "comparison \<Rightarrow> string list" where
  "matched_keys r =
     map fst (matched r) @ map fst (changed r) @ map fst (expected_change r) @ map fst (only_new r)"

definition recorded_keys :: "comparison \<Rightarrow> string list" where
  "recorded_keys r = matched_keys r @ map fst (only_old r)"

definition normalized_keys :: "string \<Rightarrow> comparison \<Rightarrow> string list" where
  "normalized_keys service_name r =
     matched_keys r @ map (\<lambda>(orig_key, val). normalize_key orig_key service_name) (only_old r)"

definition recorded_keys_v2 :: "comparison_v2 \<Rightarrow> string list" where
  "recorded_keys_v2 r =
     matched_v2 r @ map fst (expected_diff r) @ map fst (unexpected_diff r)
       @ map fst (only_expanded r) @ map fst (only_archive r)"


section \<open>Lemmas on the parsers and on normalization\<close>

lemma foldl_update_distinct:
  assumes "distinct (map fst acc)"
  shows "distinct (map fst (foldl (\<lambda>d raw. case f raw of None \<Rightarrow> d
            | Some (k, v) \<Rightarrow> AList.update k v d) acc ls))"
  using assms
  by (induction ls arbitrary: acc) (auto simp: distinct_update split: option.splits)

lemma foldl_update_last:
  assumes "f l = Some (k, v)" and "\<forall>l'\<in>set post. \<forall>v'. f l' \<noteq> Some (k, v')"
  shows "map_of (foldl (\<lambda>d raw. case f raw of None \<Rightarrow> d
            | Some (k, v) \<Rightarrow> AList.update k v d) acc (pre @ l # post)) k = Some v"
proof -
  let ?step = "\<lambda>d raw. case f raw of None \<Rightarrow> d | Some (k, v) \<Rightarrow> AList.update k v d"
  have keep: "map_of (foldl ?step d post) k = map_of d k" for d
    using assms(2)
  proof (induction post arbitrary: d)
    case Nil
    then show ?case by simp
  next
    case (Cons p post)
    have "map_of (?step d p) k = map_of d k"
      using Cons.prems by (auto simp: update_conv' split: option.splits)
    with Cons show ?case by simp
  qed
  have "map_of (?step (foldl ?step acc pre) l) k = Some v"
    using assms(1) by (simp add: update_conv')
  then show ?thesis by (simp add: keep)
qed

lemma parse_env_file_fold:
  "parse_env_file ls = foldl (\<lambda>d raw. case line_entry raw of None \<Rightarrow> d
      | Some (k, v) \<Rightarrow> AList.update k v d) [] ls"
  unfolding parse_env_file_def by (rule arg_cong [where f = "\<lambda>g. foldl g [] ls"])
    (simp add: parse_line_def fun_eq_iff)

lemma parse_env_file_v2_fold:
  "parse_env_file_v2 ls = foldl (\<lambda>d raw. case line_entry_v2 raw of None \<Rightarrow> d
      | Some (k, v) \<Rightarrow> AList.update k v d) [] ls"
  unfolding parse_env_file_v2_def by (rule arg_cong [where f = "\<lambda>g. foldl g [] ls"])
    (simp add: parse_line_v2_def fun_eq_iff)

lemma strip_first_prefix_first:
  assumes "\<forall>q\<in>set ps. \<not> startswith key q" and "startswith key p"
  shows "strip_first_prefix (ps @ p # qs) key = drop (length p) key"
  using assms by (induction ps) auto

lemma strip_first_prefix_none:
  assumes "\<forall>q\<in>set ps. \<not> startswith key q"
  shows "strip_first_prefix ps key = key"
  using assms by (induction ps) auto

section \<open>Claims on the parsers and on normalization\<close>

text \<open>
  C7. Key normalization removes the first matching prefix of the ordered candidate list.
  The service-specific prefix heads the list, so when it matches it is the one removed,
  whatever the generic prefixes do; in general the first candidate that matches is the one
  removed; a key that no candidate matches is returned unchanged. A key
  \<open>SERVICE_FOO_BAR\<close> under a service whose prefix is \<open>SERVICE_FOO_\<close> (such as the service
  \<open>service-foo\<close>) normalizes to \<open>BAR\<close>.
\<close>

theorem normalize_key_first_match:
  "hd (prefixes svc) = service_prefix svc
   \<and> (startswith key (service_prefix svc) \<longrightarrow>
        normalize_key key svc = drop (length (service_prefix svc)) key)
   \<and> (\<forall>ps p qs. prefixes svc = ps @ p # qs \<and> (\<forall>q\<in>set ps. \<not> startswith key q)
          \<and> startswith key p \<longrightarrow> normalize_key key svc = drop (length p) key)
   \<and> ((\<forall>p\<in>set (prefixes svc). \<not> startswith key p) \<longrightarrow> normalize_key key svc = key)
   \<and> (service_prefix svc = ''SERVICE_FOO_'' \<longrightarrow> normalize_key ''SERVICE_FOO_BAR'' svc = ''BAR'')
   \<and> service_prefix ''service-foo'' = ''SERVICE_FOO_''"
proof -
  have first: "normalize_key k svc = drop (length (service_prefix svc)) k"
    if "startswith k (service_prefix svc)" for k
    using that by (simp add: normalize_key_def prefixes_def)
  have ex: "normalize_key ''SERVICE_FOO_BAR'' svc = ''BAR''"
    if "service_prefix svc = ''SERVICE_FOO_''"
    using first [of "''SERVICE_FOO_BAR''"] that by (simp add: startswith_def)
  have pre: "service_prefix ''service-foo'' = ''SERVICE_FOO_''"
    by code_simp
  show ?thesis
    using first ex pre
    by (auto simp: normalize_key_def strip_first_prefix_first strip_first_prefix_none)
      (simp add: prefixes_def)
qed

theorem normalize_key_first_match_witness:
  "startswith ''USER_AUTH_PORT'' (service_prefix ''user-auth'')
   \<and> normalize_key ''USER_AUTH_PORT'' ''user-auth'' = ''PORT''
   \<and> normalize_key ''FETCH_MCP_PORT'' ''user-auth'' = ''PORT''
   \<and> normalize_key ''PORT'' ''user-auth'' = ''PORT''
   \<and> normalize_key ''SERVICE_FOO_BAR'' ''service-foo'' = ''BAR''"
proof -
  have sp: "service_prefix ''user-auth'' = ''USER_AUTH_''"
    by code_simp
  have sw: "startswith ''USER_AUTH_PORT'' (service_prefix ''user-auth'')"
    by (simp add: sp startswith_def)
  have split: "prefixes ''user-auth'' = [''USER_AUTH_'', ''COMFY_MCP_''] @ ''FETCH_MCP_'' #
      [''PERPLEXITY_MCP_'', ''SHOPIFY_MCP_'', ''CHART_MCP_'', ''COMMERCE_MCP_'', ''GOOGLE_ADS_MCP_'']"
    by (simp add: prefixes_def sp)
  have nomatch: "\<forall>q\<in>set [''USER_AUTH_'', ''COMFY_MCP_'']. \<not> startswith ''FETCH_MCP_PORT'' q"
    by (simp add: startswith_def)
  have m: "startswith ''FETCH_MCP_PORT'' ''FETCH_MCP_''"
    by (simp add: startswith_def)
  have none: "\<forall>p\<in>set (prefixes ''user-auth''). \<not> startswith ''PORT'' p"
    by (simp add: prefixes_def sp startswith_def)
  note t1 = normalize_key_first_match [of "''user-auth''" "''USER_AUTH_PORT''"]
  note t2 = normalize_key_first_match [of "''user-auth''" "''FETCH_MCP_PORT''"]
  note t3 = normalize_key_first_match [of "''user-auth''" "''PORT''"]
  note t4 = normalize_key_first_match [of "''service-foo''" "''PORT''"]
  have a: "normalize_key ''USER_AUTH_PORT'' ''user-auth'' = ''PORT''"
    using t1 sw by (simp add: sp)
  have b: "normalize_key ''FETCH_MCP_PORT'' ''user-auth'' = ''PORT''"
  proof -
    from t2 have "\<forall>ps p qs. prefixes ''user-auth'' = ps @ p # qs
        \<and> (\<forall>q\<in>set ps. \<not> startswith ''FETCH_MCP_PORT'' q) \<and> startswith ''FETCH_MCP_PORT'' p
        \<longrightarrow> normalize_key ''FETCH_MCP_PORT'' ''user-auth'' = drop (length p) ''FETCH_MCP_PORT''"
      by (elim conjE)
    then have "normalize_key ''FETCH_MCP_PORT'' ''user-auth''
        = drop (length ''FETCH_MCP_'') ''FETCH_MCP_PORT''"
      using split nomatch m by (elim allE impE) (intro conjI, assumption+)
    then show ?thesis by simp
  qed
  have c: "normalize_key ''PORT'' ''user-auth'' = ''PORT''"
    using t3 none by blast
  have d: "normalize_key ''SERVICE_FOO_BAR'' ''service-foo'' = ''BAR''"
    using t4 by blast
  show ?thesis using sw a b c d by simp
qed

text \<open>
  C10. When a key appears on several \<open>KEY=VALUE\<close> lines of a file, both parsers return
  the value of the last such line: if line \<open>l\<close> assigns \<open>v\<close> to \<open>k\<close> and no later line
  assigns \<open>k\<close>, the parsed mapping holds \<open>v\<close> at \<open>k\<close>. The keys of the parsed mapping are
  pairwise distinct, so it holds exactly one value per key.
\<close>

theorem parse_env_file_last_wins:
  "distinct (map fst (parse_env_file ls))
   \<and> distinct (map fst (parse_env_file_v2 ls))
   \<and> (\<forall>pre l post k v.
         ls = pre @ l # post \<and> line_entry l = Some (k, v)
         \<and> (\<forall>l'\<in>set post. \<forall>v'. line_entry l' \<noteq> Some (k, v'))
         \<longrightarrow> map_of (parse_env_file ls) k = Some v)
   \<and> (\<forall>pre l post k v.
         ls = pre @ l # post \<and> line_entry_v2 l = Some (k, v)
         \<and> (\<forall>l'\<in>set post. \<forall>v'. line_entry_v2 l' \<noteq> Some (k, v'))
         \<longrightarrow> map_of (parse_env_file_v2 ls) k = Some v)"
proof -
  have d1: "distinct (map fst (parse_env_file ls))"
    unfolding parse_env_file_fold by (rule foldl_update_distinct) simp
  have d2: "distinct (map fst (parse_env_file_v2 ls))"
    unfolding parse_env_file_v2_fold by (rule foldl_update_distinct) simp
  have l1: "map_of (parse_env_file ls) k = Some v"
    if "ls = pre @ l # post" "line_entry l = Some (k, v)"
       "\<forall>l'\<in>set post. \<forall>v'. line_entry l' \<noteq> Some (k, v')" for pre l post k v
    unfolding parse_env_file_fold that(1) using that(2,3) by (rule foldl_update_last)
  have l2: "map_of (parse_env_file_v2 ls) k = Some v"
    if "ls = pre @ l # post" "line_entry_v2 l = Some (k, v)"
       "\<forall>l'\<in>set post. \<forall>v'. line_entry_v2 l' \<noteq> Some (k, v')" for pre l post k v
    unfolding parse_env_file_v2_fold that(1) using that(2,3) by (rule foldl_update_last)
  show ?thesis using d1 d2 l1 l2 by blast
qed

theorem parse_env_file_last_wins_witness:
  "line_entry ''A = 3'' = Some (''A'', ''3'')
   \<and> line_entry_v2 ''A = 3'' = Some (''A'', ''3'')
   \<and> map_of (parse_env_file [''A=1'', ''A = 3'', ''B=2'']) ''A'' = Some ''3''
   \<and> map_of (parse_env_file_v2 [''A=1'', ''A = 3'', ''B=2'']) ''A'' = Some ''3''"
proof -
  have e1: "line_entry ''A = 3'' = Some (''A'', ''3'')"
    and e2: "line_entry ''B=2'' = Some (''B'', ''2'')"
    and e3: "line_entry_v2 ''A = 3'' = Some (''A'', ''3'')"
    and e4: "line_entry_v2 ''B=2'' = Some (''B'', ''2'')"
    by code_simp+
  have split: "[''A=1'', ''A = 3'', ''B=2''] = [''A=1''] @ ''A = 3'' # [''B=2'']"
    by simp
  have p1: "\<forall>l'\<in>set [''B=2'']. \<forall>v'. line_entry l' \<noteq> Some (''A'', v')"
    by (simp add: e2)
  have p2: "\<forall>l'\<in>set [''B=2'']. \<forall>v'. line_entry_v2 l' \<noteq> Some (''A'', v')"
    by (simp add: e4)
  note t = parse_env_file_last_wins [of "[''A=1'', ''A = 3'', ''B=2'']"]
  from t split e1 p1 have a: "map_of (parse_env_file [''A=1'', ''A = 3'', ''B=2'']) ''A'' = Some ''3''"
    by blast
  from t split e3 p2 have b: "map_of (parse_env_file_v2 [''A=1'', ''A = 3'', ''B=2'']) ''A'' = Some ''3''"
    by blast
  show ?thesis using e1 e3 a b by simp
qed

section \<open>Lemmas on the comparators\<close>

lemma delete_filter: "AList.delete k d = filter (\<lambda>p. fst p \<noteq> k) d"
  by (induction d) auto

lemma compare_step_keys:
  assumes "compare_step (r, d) (k, v) = (r', d')"
  shows "mset (matched_keys r') = mset (matched_keys r) + {#k#}
     \<and> only_old r' = only_old r
     \<and> d' = filter (\<lambda>p. fst p \<noteq> k) d"
proof (cases "map_of d k")
  case None
  then have "k \<notin> fst ` set d" by (simp add: map_of_eq_None_iff)
  then have "filter (\<lambda>p. fst p \<noteq> k) d = d" by (auto simp: filter_id_conv)
  with assms None show ?thesis by (auto simp: matched_keys_def)
next
  case (Some a)
  with assms show ?thesis
    by (cases a) (auto simp: matched_keys_def delete_filter split: if_splits)
qed

lemma compare_loop_keys:
  "foldl compare_step (r, d) xs = (r', d') \<Longrightarrow>
     mset (matched_keys r') = mset (matched_keys r) + mset (map fst xs)
     \<and> only_old r' = only_old r
     \<and> d' = filter (\<lambda>p. fst p \<notin> fst ` set xs) d"
proof (induction xs arbitrary: r d)
  case Nil
  then show ?case by simp
next
  case (Cons x xs)
  obtain k v where x: "x = (k, v)" by (cases x)
  obtain r1 d1 where s: "compare_step (r, d) (k, v) = (r1, d1)"
    by (cases "compare_step (r, d) (k, v)")
  from Cons.prems have "foldl compare_step (r1, d1) xs = (r', d')"
    by (simp add: x s del: compare_step.simps)
  from Cons.IH [OF this] compare_step_keys [OF s] show ?case
    by (auto simp: x intro: filter_cong)
qed

lemma normalize_old_distinct:
  "distinct (map fst acc) \<Longrightarrow>
     distinct (map fst (foldl (\<lambda>d (k, v). AList.update (f k) (k, v) d) acc xs))"
proof (induction xs arbitrary: acc)
  case Nil
  then show ?case by simp
next
  case (Cons x xs)
  obtain k v where x: "x = (k, v)" by (cases x)
  have "distinct (map fst (AList.update (f k) (k, v) acc))"
    using Cons.prems by (rule distinct_update)
  from Cons.IH [OF this] show ?case by (simp add: x)
qed

lemma normalize_old_keys:
  "fst ` set (foldl (\<lambda>d (k, v). AList.update (f k) (k, v) d) acc xs)
     = fst ` set acc \<union> f ` fst ` set xs"
proof (induction xs arbitrary: acc)
  case Nil
  then show ?case by simp
next
  case (Cons x xs)
  obtain k v where x: "x = (k, v)" by (cases x)
  have "fst ` set (AList.update (f k) (k, v) acc) = {f k} \<union> fst ` set acc"
    by (rule dom_update)
  with Cons.IH [of "AList.update (f k) (k, v) acc"] show ?case
    by (simp add: x)
qed

lemma normalize_old_norm:
  "\<forall>p\<in>set acc. fst p = f (fst (snd p)) \<Longrightarrow>
     \<forall>p\<in>set (foldl (\<lambda>d (k, v). AList.update (f k) (k, v) d) acc xs). fst p = f (fst (snd p))"
proof (induction xs arbitrary: acc)
  case Nil
  then show ?case by simp
next
  case (Cons x xs)
  obtain k v where x: "x = (k, v)" by (cases x)
  have "set (AList.update (f k) (k, v) acc) \<subseteq> insert (f k, (k, v)) (set acc)"
    by (induction acc) auto
  with Cons.prems have "\<forall>p\<in>set (AList.update (f k) (k, v) acc). fst p = f (fst (snd p))"
    by auto
  from Cons.IH [OF this] show ?case by (simp add: x)
qed

lemma compare_configs_normalized_partition:
  assumes "distinct (map fst new_config)"
  shows "distinct (normalized_keys svc (compare_configs old_config new_config svc env))
     \<and> set (normalized_keys svc (compare_configs old_config new_config svc env))
         = (\<lambda>k. normalize_key k svc) ` fst ` set old_config \<union> fst ` set new_config"
proof -
  define d0 where "d0 = normalize_old old_config svc"
  obtain r d where loop: "foldl compare_step (empty_comparison, d0) new_config = (r, d)"
    by (cases "foldl compare_step (empty_comparison, d0) new_config")
  have d0_distinct: "distinct (map fst d0)"
    unfolding d0_def normalize_old_def by (rule normalize_old_distinct) simp
  have d0_keys: "fst ` set d0 = (\<lambda>k. normalize_key k svc) ` fst ` set old_config"
    unfolding d0_def normalize_old_def by (simp add: normalize_old_keys)
  have d0_norm: "\<forall>p\<in>set d0. fst p = normalize_key (fst (snd p)) svc"
    unfolding d0_def normalize_old_def by (rule normalize_old_norm) simp
  from compare_loop_keys [OF loop]
  have mk: "mset (matched_keys r) = mset (map fst new_config)"
    and oo: "only_old r = []"
    and d: "d = filter (\<lambda>p. fst p \<notin> fst ` set new_config) d0"
    by (simp_all add: matched_keys_def empty_comparison_def)
  have res: "compare_configs old_config new_config svc env = r\<lparr>only_old := map snd d\<rparr>"
    by (simp add: compare_configs_def d0_def [symmetric] loop oo)
  have "map (\<lambda>(orig_key, val). normalize_key orig_key svc) (map snd d) = map fst d"
    using d0_norm by (auto simp: d split: prod.splits)
  then have nk: "normalized_keys svc (compare_configs old_config new_config svc env)
      = matched_keys r @ map fst d"
    by (simp add: res normalized_keys_def matched_keys_def)
  have dm: "distinct (matched_keys r)"
    using mk assms by (metis mset_eq_imp_distinct_iff)
  have sm: "set (matched_keys r) = fst ` set new_config"
    using mk by (metis mset_eq_setD set_map)
  have dd: "distinct (map fst d)"
    using d0_distinct by (simp add: d distinct_map_filter)
  have sd: "set (map fst d) = fst ` set d0 - fst ` set new_config"
    by (auto simp: d)
  show ?thesis
    unfolding nk using dm sm dd sd d0_keys by auto
qed

lemma compare_step_v2_keys:
  "mset (recorded_keys_v2 (compare_step_v2 expanded archive r k))
     = mset (recorded_keys_v2 r) + {#k#}"
  by (simp add: compare_step_v2_def recorded_keys_v2_def split: option.splits)

lemma compare_loop_v2_keys:
  "mset (recorded_keys_v2 (foldl (compare_step_v2 expanded archive) r ks))
     = mset (recorded_keys_v2 r) + mset ks"
  by (induction ks arbitrary: r) (simp_all add: compare_step_v2_keys)

lemma compare_configs_v2_partition:
  assumes "distinct all_keys"
  shows "distinct (recorded_keys_v2 (compare_configs_v2 all_keys expanded archive))
     \<and> set (recorded_keys_v2 (compare_configs_v2 all_keys expanded archive)) = set all_keys"
proof -
  have "recorded_keys_v2 empty_comparison_v2 = []"
    by (simp add: recorded_keys_v2_def empty_comparison_v2_def)
  then have "mset (recorded_keys_v2 (compare_configs_v2 all_keys expanded archive)) = mset all_keys"
    by (simp add: compare_configs_v2_def compare_loop_v2_keys)
  then show ?thesis using assms by (metis mset_eq_imp_distinct_iff mset_eq_setD)
qed

section \<open>Claims on the comparators\<close>

text \<open>
  C3 (as amended). The five buckets partition the union of the normalized keys of A and
  the keys of B once every only-in-A entry is identified by its normalized key:
  \<open>compare_configs\<close> records an only-in-A entry under its original key, before prefix
  removal, so the keys as recorded may leave a normalized key out and repeat a key of B.
  \<open>compare_configs_v2\<close>, which normalizes nothing, partitions \<open>keys(A) \<union> keys(B)\<close> as
  recorded, for every enumeration without repetition of that union (the order in which
  Python iterates the set of keys). In both, the concatenation of the buckets' keys has no
  repetition, so no key is in two buckets or twice in one, and its set is the union, so no
  key is left out.
\<close>

theorem comparison_buckets_partition:
  "(distinct (map fst new_config) \<longrightarrow>
      distinct (normalized_keys svc (compare_configs old_config new_config svc env))
      \<and> set (normalized_keys svc (compare_configs old_config new_config svc env))
          = (\<lambda>k. normalize_key k svc) ` fst ` set old_config \<union> fst ` set new_config)
   \<and> (distinct all_keys \<and> set all_keys = fst ` set expanded \<union> fst ` set archive \<longrightarrow>
      distinct (recorded_keys_v2 (compare_configs_v2 all_keys expanded archive))
      \<and> set (recorded_keys_v2 (compare_configs_v2 all_keys expanded archive))
          = fst ` set expanded \<union> fst ` set archive)"
  using compare_configs_normalized_partition [of new_config svc old_config env]
    compare_configs_v2_partition [of all_keys expanded archive]
  by simp

theorem comparison_buckets_partition_witness:
  "distinct (map fst [(''PORT'', ''2''), (''APP_NAME'', ''n'')])
   \<and> distinct (normalized_keys ''user-auth''
        (compare_configs [(''USER_AUTH_PORT'', ''1''), (''FETCH_MCP_Z'', ''z'')]
           [(''PORT'', ''2''), (''APP_NAME'', ''n'')] ''user-auth'' ''prod''))
   \<and> set (normalized_keys ''user-auth''
        (compare_configs [(''USER_AUTH_PORT'', ''1''), (''FETCH_MCP_Z'', ''z'')]
           [(''PORT'', ''2''), (''APP_NAME'', ''n'')] ''user-auth'' ''prod''))
       = (\<lambda>k. normalize_key k ''user-auth'') ` fst ` set [(''USER_AUTH_PORT'', ''1''), (''FETCH_MCP_Z'', ''z'')]
          \<union> fst ` set [(''PORT'', ''2''), (''APP_NAME'', ''n'')]
   \<and> distinct [''A'', ''B'', ''C'']
   \<and> set [''A'', ''B'', ''C''] = fst ` set [(''A'', ''1''), (''B'', ''2'')] \<union> fst ` set [(''B'', ''3''), (''C'', ''4'')]
   \<and> distinct (recorded_keys_v2 (compare_configs_v2 [''A'', ''B'', ''C'']
        [(''A'', ''1''), (''B'', ''2'')] [(''B'', ''3''), (''C'', ''4'')]))
   \<and> set (recorded_keys_v2 (compare_configs_v2 [''A'', ''B'', ''C'']
        [(''A'', ''1''), (''B'', ''2'')] [(''B'', ''3''), (''C'', ''4'')]))
       = fst ` set [(''A'', ''1''), (''B'', ''2'')] \<union> fst ` set [(''B'', ''3''), (''C'', ''4'')]"
proof -
  have h1: "distinct (map fst [(''PORT'', ''2''), (''APP_NAME'', ''n'')])"
    by simp
  have h2: "distinct [''A'', ''B'', ''C'']"
    by simp
  have h3: "set [''A'', ''B'', ''C'']
      = fst ` set [(''A'', ''1''), (''B'', ''2'')] \<union> fst ` set [(''B'', ''3''), (''C'', ''4'')]"
    by auto
  note t = comparison_buckets_partition [of "[(''PORT'', ''2''), (''APP_NAME'', ''n'')]"
      "''user-auth''" "[(''USER_AUTH_PORT'', ''1''), (''FETCH_MCP_Z'', ''z'')]" "''prod''"
      "[''A'', ''B'', ''C'']" "[(''A'', ''1''), (''B'', ''2'')]" "[(''B'', ''3''), (''C'', ''4'')]"]
  from t h1 h2 h3 show ?thesis by blast
qed

theorem comparison_buckets_partition_counterexample:
  "only_new (compare_configs [(''COMFY_MCP_X'', ''1'')] [(''COMFY_MCP_X'', ''2'')]
       ''user-auth'' ''prod'') = [(''COMFY_MCP_X'', ''2'')]
   \<and> only_old (compare_configs [(''COMFY_MCP_X'', ''1'')] [(''COMFY_MCP_X'', ''2'')]
       ''user-auth'' ''prod'') = [(''COMFY_MCP_X'', ''1'')]
   \<and> recorded_keys (compare_configs [(''COMFY_MCP_X'', ''1'')] [(''COMFY_MCP_X'', ''2'')]
       ''user-auth'' ''prod'') = [''COMFY_MCP_X'', ''COMFY_MCP_X'']
   \<and> \<not> distinct (recorded_keys (compare_configs [(''COMFY_MCP_X'', ''1'')]
       [(''COMFY_MCP_X'', ''2'')] ''user-auth'' ''prod''))
   \<and> normalize_key ''COMFY_MCP_X'' ''user-auth'' = ''X''
   \<and> ''X'' \<notin> set (recorded_keys (compare_configs [(''COMFY_MCP_X'', ''1'')]
       [(''COMFY_MCP_X'', ''2'')] ''user-auth'' ''prod''))"
proof -
  have r: "compare_configs [(''COMFY_MCP_X'', ''1'')] [(''COMFY_MCP_X'', ''2'')]
       ''user-auth'' ''prod''
     = \<lparr>matched = [], changed = [], expected_change = [],
        only_old = [(''COMFY_MCP_X'', ''1'')], only_new = [(''COMFY_MCP_X'', ''2'')]\<rparr>"
    by code_simp
  have n: "normalize_key ''COMFY_MCP_X'' ''user-auth'' = ''X''"
    by code_simp
  show ?thesis
    unfolding r using n by (simp add: recorded_keys_def matched_keys_def)
qed

end
